theory Spec2Isabelle
  imports Main "HOL-Library.Char_ord" "HOL-Library.List_Lexorder" "HOL-Library.AList"
begin

section \<open>The document store used by the materializer\<close>

text \<open>
  The four operations of the package (\<open>savePageToCollection\<close>, \<open>readPages\<close>,
  \<open>materializePaginationResults\<close>, \<open>readMaterializedPages\<close>) are thin layers over the
  client of a document store (\<open>firebase/firestore\<close>): they build queries with
  \<open>query\<close>, \<open>orderBy\<close>, \<open>where\<close>, \<open>limit\<close>, \<open>startAfter\<close>, run them with
  \<open>getDocs\<close> and insert with \<open>addDoc\<close>. The store is not part of the package; this
  section fixes the part of its behaviour that the four operations rely on.

  Field values are scalars; the store compares values of different types by type first
  (null below numbers below strings) and strings lexicographically. The package calls
  \<open>startAfter\<close> with one plain value (a document id in \<open>readPages\<close>, a stored cursor or
  \<open>null\<close> in \<open>readMaterializedPages\<close>), never with a document snapshot: the client reads
  such a value as a bound on the first field of the query's \<open>orderBy\<close> clauses.
\<close>

datatype fvalue = VNull | VNum int | VStr string

fun fv_less :: "fvalue \<Rightarrow> fvalue \<Rightarrow> bool" where
  "fv_less VNull VNull = False"
| "fv_less VNull _ = True"
| "fv_less (VNum a) (VNum b) = (a < b)"
| "fv_less (VNum a) (VStr b) = True"
| "fv_less (VStr a) (VStr b) = (a < b)"
| "fv_less _ _ = False"

type_synonym docdata = "(string \<times> fvalue) list"
type_synonym meta = "(string \<times> fvalue) list"

text \<open>A document of the source collection: its identifier and its data.\<close>

record document =
  doc_id :: string
  doc_data :: docdata

text \<open>
  The fields written by \<open>savePageToCollection\<close>: \<open>{cursor, data, metadata}\<close>, with
  \<open>cursor: string | null\<close> and \<open>metadata\<close> optional. A document of the destination
  collection is these fields under the identifier the store generated for it.
\<close>

record page =
  pg_cursor :: "string option"
  pg_data :: "docdata list"
  pg_metadata :: "meta option"

record entry =
  e_id :: string
  e_fields :: page

datatype direction = Asc | Desc

datatype constraint =
    Where string fvalue
  | OrderBy string direction
  | Limit nat
  | StartAfter fvalue

record fquery =
  q_filters :: "(string \<times> fvalue) list"
  q_orderBy :: "(string \<times> direction) list"
  q_limit :: "nat option"
  q_startAfter :: "fvalue option"

datatype fs_error = InvalidArgument | StoreFailure nat

definition collection_query :: fquery where
  "collection_query = \<lparr>q_filters = [], q_orderBy = [], q_limit = None, q_startAfter = None\<rparr>"

text \<open>
  A field is named by a dotted path. The client rejects a path that contains one of the
  characters \<open>~ * / [ ]\<close> or that has an empty segment: the empty path, and a path with a
  leading, a trailing or a double dot.
\<close>

fun split_dots :: "string \<Rightarrow> string list" where
  "split_dots [] = [[]]"
| "split_dots (c # cs) =
     (if c = CHR ''.'' then [] # split_dots cs
      else (case split_dots cs of [] \<Rightarrow> [[c]] | s # ss \<Rightarrow> (c # s) # ss))"

definition valid_field_path :: "string \<Rightarrow> bool" where
  "valid_field_path f =
     (list_all (\<lambda>c. c \<notin> set ''~*/[]'') f \<and> list_all (\<lambda>s. s \<noteq> []) (split_dots f))"

text \<open>
  Adding one constraint to a query. The client rejects a \<open>where\<close> or an \<open>orderBy\<close> on an
  invalid field path, a \<open>limit\<close> that is not positive, a \<open>startAfter\<close> with more values
  than the query has \<open>orderBy\<close> clauses, and an \<open>orderBy\<close> added after a start bound.
\<close>

fun apply_constraint :: "fquery \<Rightarrow> constraint \<Rightarrow> fs_error + fquery" where
  "apply_constraint q (Where f v) =
     (if \<not> valid_field_path f then Inl InvalidArgument
      else Inr (q\<lparr>q_filters := q_filters q @ [(f, v)]\<rparr>))"
| "apply_constraint q (OrderBy f d) =
     (if \<not> valid_field_path f \<or> q_startAfter q \<noteq> None then Inl InvalidArgument
      else Inr (q\<lparr>q_orderBy := q_orderBy q @ [(f, d)]\<rparr>))"
| "apply_constraint q (Limit n) =
     (if n = 0 then Inl InvalidArgument else Inr (q\<lparr>q_limit := Some n\<rparr>))"
| "apply_constraint q (StartAfter v) =
     (if q_orderBy q = [] then Inl InvalidArgument else Inr (q\<lparr>q_startAfter := Some v\<rparr>))"

fun query :: "fquery \<Rightarrow> constraint list \<Rightarrow> fs_error + fquery" where
  "query q [] = Inr q"
| "query q (c # cs) = (case apply_constraint q c of Inl e \<Rightarrow> Inl e | Inr q' \<Rightarrow> query q' cs)"

text \<open>
  Results are ordered by the \<open>orderBy\<close> clauses, then by document identifier
  (\<open>__name__\<close>) in the direction of the last clause, ascending when there is none.
\<close>

definition normalized_orderBy :: "fquery \<Rightarrow> (string \<times> direction) list" where
  "normalized_orderBy q =
     (let obs = q_orderBy q
      in if ''__name__'' \<in> set (map fst obs) then obs
         else obs @ [(''__name__'', if obs = [] then Asc else snd (last obs))])"

fun before :: "direction \<Rightarrow> fvalue \<Rightarrow> fvalue \<Rightarrow> bool" where
  "before Asc x y = fv_less x y"
| "before Desc x y = fv_less y x"

fun doc_before :: "('d \<Rightarrow> string \<Rightarrow> fvalue option) \<Rightarrow> (string \<times> direction) list \<Rightarrow> 'd \<Rightarrow> 'd \<Rightarrow> bool" where
  "doc_before fld [] a b = False"
| "doc_before fld ((f, dir) # obs) a b =
     (case (fld a f, fld b f) of
        (Some x, Some y) \<Rightarrow> before dir x y \<or> (x = y \<and> doc_before fld obs a b)
      | _ \<Rightarrow> False)"

fun insort_by :: "('a \<Rightarrow> 'a \<Rightarrow> bool) \<Rightarrow> 'a \<Rightarrow> 'a list \<Rightarrow> 'a list" where
  "insort_by lt x [] = [x]"
| "insort_by lt x (y # ys) = (if lt y x then y # insort_by lt x ys else x # y # ys)"

definition sort_by :: "('a \<Rightarrow> 'a \<Rightarrow> bool) \<Rightarrow> 'a list \<Rightarrow> 'a list" where
  "sort_by lt xs = foldr (insort_by lt) xs []"

text \<open>
  A document matches when every equality filter holds on it and it has every field the
  query orders by. A start bound is a value for the first ordering field: the results
  are the documents that sort strictly after it.
\<close>

definition matches :: "('d \<Rightarrow> string \<Rightarrow> fvalue option) \<Rightarrow> fquery \<Rightarrow> 'd \<Rightarrow> bool" where
  "matches fld q d =
     (list_all (\<lambda>(f, v). fld d f = Some v) (q_filters q) \<and>
      list_all (\<lambda>(f, dir). fld d f \<noteq> None) (normalized_orderBy q))"

definition after_bound :: "('d \<Rightarrow> string \<Rightarrow> fvalue option) \<Rightarrow> fquery \<Rightarrow> fvalue \<Rightarrow> 'd \<Rightarrow> bool" where
  "after_bound fld q v d =
     (case normalized_orderBy q of
        [] \<Rightarrow> True
      | (f, dir) # obs \<Rightarrow> (case fld d f of None \<Rightarrow> False | Some x \<Rightarrow> before dir v x))"

definition ordered_matches :: "('d \<Rightarrow> string \<Rightarrow> fvalue option) \<Rightarrow> fquery \<Rightarrow> 'd list \<Rightarrow> 'd list" where
  "ordered_matches fld q coll = sort_by (doc_before fld (normalized_orderBy q)) (filter (matches fld q) coll)"

definition run_query :: "('d \<Rightarrow> string \<Rightarrow> fvalue option) \<Rightarrow> fquery \<Rightarrow> 'd list \<Rightarrow> 'd list" where
  "run_query fld q coll =
     (let sorted = ordered_matches fld q coll;
          bounded = (case q_startAfter q of None \<Rightarrow> sorted
                     | Some v \<Rightarrow> filter (after_bound fld q v) sorted)
      in case q_limit q of None \<Rightarrow> bounded | Some n \<Rightarrow> take n bounded)"

text \<open>Field access: \<open>__name__\<close> is the document identifier.\<close>

definition document_field :: "document \<Rightarrow> string \<Rightarrow> fvalue option" where
  "document_field d f = (if f = ''__name__'' then Some (VStr (doc_id d)) else map_of (doc_data d) f)"

fun strip_prefix :: "string \<Rightarrow> string \<Rightarrow> string option" where
  "strip_prefix [] s = Some s"
| "strip_prefix (p # ps) [] = None"
| "strip_prefix (p # ps) (c # cs) = (if p = c then strip_prefix ps cs else None)"

text \<open>
  Field access on a destination document. A dotted path \<open>metadata.k\<close> reads key \<open>k\<close>
  of the \<open>metadata\<close> map; metadata values are scalars, so a longer path reads nothing.
\<close>

definition entry_field :: "entry \<Rightarrow> string \<Rightarrow> fvalue option" where
  "entry_field d f =
     (if f = ''__name__'' then Some (VStr (e_id d))
      else if f = ''cursor'' then
        Some (case pg_cursor (e_fields d) of None \<Rightarrow> VNull | Some c \<Rightarrow> VStr c)
      else case strip_prefix ''metadata.'' f of
             None \<Rightarrow> None
           | Some k \<Rightarrow>
               (if CHR ''.'' \<in> set k then None
                else case pg_metadata (e_fields d) of None \<Rightarrow> None | Some md \<Rightarrow> map_of md k))"

subsection \<open>The world: two collections, store failures, and the log of store calls\<close>

text \<open>
  \<open>source\<close> and \<open>destination\<close> are the contents of the collections behind the two
  collection references. Every call to the store (\<open>getDocs\<close>, \<open>addDoc\<close>) may fail:
  \<open>faults\<close> lists the outcome of the calls to come, in order (\<open>None\<close>: the call
  succeeds; an exhausted list: every further call succeeds). \<open>autoId n\<close> is the
  identifier the store generates for an insert into a collection of \<open>n\<close> documents.
  \<open>calls\<close> logs each store call with its outcome. \<open>ignoreUndefinedProperties\<close> is the
  client's setting of that name, off by default. The two references denote different
  collections, and nothing but the operations below writes to them during a run.
\<close>

datatype target = Source | Destination

datatype call = GetDocs target fquery | AddDoc page

record world =
  source :: "document list"
  destination :: "entry list"
  faults :: "fs_error option list"
  autoId :: "nat \<Rightarrow> string"
  calls :: "(call \<times> fs_error option) list"
  ignoreUndefinedProperties :: bool

definition store_call :: "call \<Rightarrow> world \<Rightarrow> fs_error option \<times> world" where
  "store_call c w =
     (case faults w of
        [] \<Rightarrow> (None, w\<lparr>calls := calls w @ [(c, None)]\<rparr>)
      | r # rs \<Rightarrow> (r, w\<lparr>faults := rs, calls := calls w @ [(c, r)]\<rparr>))"

definition getDocs_source :: "fquery \<Rightarrow> world \<Rightarrow> (fs_error + document list) \<times> world" where
  "getDocs_source q w =
     (case store_call (GetDocs Source q) w of
        (Some e, w') \<Rightarrow> (Inl e, w')
      | (None, w') \<Rightarrow> (Inr (run_query document_field q (source w')), w'))"

definition getDocs_destination :: "fquery \<Rightarrow> world \<Rightarrow> (fs_error + entry list) \<times> world" where
  "getDocs_destination q w =
     (case store_call (GetDocs Destination q) w of
        (Some e, w') \<Rightarrow> (Inl e, w')
      | (None, w') \<Rightarrow> (Inr (run_query entry_field q (destination w')), w'))"

text \<open>
  An insert of \<open>{cursor, data, metadata}\<close>. A field whose value is \<open>undefined\<close> (here: an
  absent \<open>metadata\<close>) makes the client reject the data before it calls the store, unless
  it is set to ignore undefined properties; then the field is left out of the document.
\<close>

definition addDoc :: "page \<Rightarrow> world \<Rightarrow> (fs_error + unit) \<times> world" where
  "addDoc flds w =
     (if pg_metadata flds = None \<and> \<not> ignoreUndefinedProperties w then (Inl InvalidArgument, w)
      else
        (case store_call (AddDoc flds) w of
           (Some e, w') \<Rightarrow> (Inl e, w')
         | (None, w') \<Rightarrow>
             (Inr (), w'\<lparr>destination := destination w' @
                           [\<lparr>e_id = autoId w' (length (destination w')), e_fields = flds\<rparr>]\<rparr>)))"

section \<open>The four operations\<close>

text \<open>
  The collection references are not parameters here: \<open>readPages\<close> reads \<open>source\<close>,
  \<open>savePageToCollection\<close> and \<open>readMaterializedPages\<close> act on \<open>destination\<close>, and
  \<open>materializePaginationResults\<close> reads the one and writes the other. Every operation
  takes the world and returns it with its result; an error thrown is the result \<open>Inl\<close>.
\<close>

subsection \<open>savePageToCollection\<close>

definition savePageToCollection :: "docdata list \<Rightarrow> string option \<Rightarrow> meta option \<Rightarrow> world \<Rightarrow> (fs_error + unit) \<times> world" where
  "savePageToCollection dat cur md w = addDoc \<lparr>pg_cursor = cur, pg_data = dat, pg_metadata = md\<rparr> w"

subsection \<open>readPages\<close>

text \<open>
  The generator's local state is \<open>lastCursor\<close> (the last document snapshot of the
  previous batch, \<open>null\<close> at first) and \<open>pageNumber\<close> (1 at first). One request to the
  generator (\<open>next()\<close>) runs one iteration of its loop: it yields a page, finishes on an
  empty batch, or throws.
\<close>

record rp_state =
  lastCursor :: "document option"
  pageNumber :: nat

definition readPages_init :: rp_state where
  "readPages_init = \<lparr>lastCursor = None, pageNumber = 1\<rparr>"

datatype ('y, 's) gen_step = Yielded 'y 's | Finished | Threw fs_error

text \<open>\<open>metadata ? {...metadata, pageNumber} : {pageNumber}\<close>\<close>

definition pageMetadata :: "meta option \<Rightarrow> nat \<Rightarrow> meta" where
  "pageMetadata md n =
     (case md of
        None \<Rightarrow> [(''pageNumber'', VNum (int n))]
      | Some m \<Rightarrow> AList.update ''pageNumber'' (VNum (int n)) m)"

text \<open>The \<open>forEach\<close> over the snapshot: push each document's data, keep the last id.\<close>

definition collect_batch :: "document list \<Rightarrow> docdata list \<times> string option" where
  "collect_batch docs = foldl (\<lambda>(dat, cur) d. (dat @ [doc_data d], Some (doc_id d))) ([], None) docs"

text \<open>
  The query of one iteration: the caller's constraints and \<open>limit(batchSize)\<close>, and,
  once a batch has been read, \<open>startAfter(lastCursor.id)\<close>.
\<close>

definition readPages_query :: "constraint list \<Rightarrow> nat \<Rightarrow> document option \<Rightarrow> fs_error + fquery" where
  "readPages_query queryParams batchSize lc =
     (case query collection_query (queryParams @ [Limit batchSize]) of
        Inl e \<Rightarrow> Inl e
      | Inr q0 \<Rightarrow>
          (case lc of
             None \<Rightarrow> Inr q0
           | Some d \<Rightarrow> query q0 [StartAfter (VStr (doc_id d))]))"

definition readPages_next ::
  "constraint list \<Rightarrow> nat \<Rightarrow> meta option \<Rightarrow> rp_state \<Rightarrow> world \<Rightarrow> (page, rp_state) gen_step \<times> world" where
  "readPages_next queryParams batchSize md st w =
     (case readPages_query queryParams batchSize (lastCursor st) of
        Inl e \<Rightarrow> (Threw e, w)
      | Inr currentQuery \<Rightarrow>
          (case getDocs_source currentQuery w of
             (Inl e, w') \<Rightarrow> (Threw e, w')
           | (Inr docs, w') \<Rightarrow>
               if docs = [] then (Finished, w')
               else
                 (let (dat, cur) = collect_batch docs
                  in (Yielded
                        \<lparr>pg_cursor = cur, pg_data = dat,
                         pg_metadata = Some (pageMetadata md (pageNumber st))\<rparr>
                        \<lparr>lastCursor = Some (last docs), pageNumber = pageNumber st + 1\<rparr>,
                      w'))))"

text \<open>
  A consumer that requests up to \<open>n\<close> items: the items it receives, and how the
  generator stands afterwards.
\<close>

datatype 's status = Suspended 's | Completed | Failed fs_error

fun readPages_pull ::
  "nat \<Rightarrow> constraint list \<Rightarrow> nat \<Rightarrow> meta option \<Rightarrow> rp_state \<Rightarrow> world \<Rightarrow> (page list \<times> rp_state status) \<times> world" where
  "readPages_pull 0 queryParams batchSize md st w = (([], Suspended st), w)"
| "readPages_pull (Suc n) queryParams batchSize md st w =
     (case readPages_next queryParams batchSize md st w of
        (Threw e, w') \<Rightarrow> (([], Failed e), w')
      | (Finished, w') \<Rightarrow> (([], Completed), w')
      | (Yielded p st', w') \<Rightarrow>
          (case readPages_pull n queryParams batchSize md st' w' of
             ((ps, s), w'') \<Rightarrow> ((p # ps, s), w'')))"

definition readPages ::
  "nat \<Rightarrow> constraint list \<Rightarrow> nat \<Rightarrow> meta option \<Rightarrow> world \<Rightarrow> (page list \<times> rp_state status) \<times> world" where
  "readPages n queryParams batchSize md w = readPages_pull n queryParams batchSize md readPages_init w"

subsection \<open>materializePaginationResults\<close>

text \<open>
  The \<open>for await\<close> loop: request the next page; when there is one, save it and go on;
  an error of either step is rethrown. \<open>None\<close> is a loop that never ends.
\<close>

partial_function (option) materialize_loop ::
  "constraint list \<Rightarrow> nat \<Rightarrow> meta option \<Rightarrow> rp_state \<Rightarrow> world \<Rightarrow> ((fs_error + unit) \<times> world) option" where
  "materialize_loop queryParams batchSize md st w =
     (case readPages_next queryParams batchSize md st w of
        (Threw e, w') \<Rightarrow> Some (Inl e, w')
      | (Finished, w') \<Rightarrow> Some (Inr (), w')
      | (Yielded p st', w') \<Rightarrow>
          (case savePageToCollection (pg_data p) (pg_cursor p) (pg_metadata p) w' of
             (Inl e, w'') \<Rightarrow> Some (Inl e, w'')
           | (Inr u, w'') \<Rightarrow> materialize_loop queryParams batchSize md st' w''))"

declare materialize_loop.simps [code]

definition materializePaginationResults ::
  "constraint list \<Rightarrow> nat \<Rightarrow> meta option \<Rightarrow> world \<Rightarrow> ((fs_error + unit) \<times> world) option" where
  "materializePaginationResults queryParams batchSize md w =
     materialize_loop queryParams batchSize md readPages_init w"

text \<open>
  The first \<open>n\<close> iterations of the same loop: the result when the loop has ended by then,
  \<open>None\<close> when it is still running.
\<close>

fun materialize_steps ::
  "nat \<Rightarrow> constraint list \<Rightarrow> nat \<Rightarrow> meta option \<Rightarrow> rp_state \<Rightarrow> world \<Rightarrow> (fs_error + unit) option \<times> world" where
  "materialize_steps 0 queryParams batchSize md st w = (None, w)"
| "materialize_steps (Suc n) queryParams batchSize md st w =
     (case readPages_next queryParams batchSize md st w of
        (Threw e, w') \<Rightarrow> (Some (Inl e), w')
      | (Finished, w') \<Rightarrow> (Some (Inr ()), w')
      | (Yielded p st', w') \<Rightarrow>
          (case savePageToCollection (pg_data p) (pg_cursor p) (pg_metadata p) w' of
             (Inl e, w'') \<Rightarrow> (Some (Inl e), w'')
           | (Inr u, w'') \<Rightarrow> materialize_steps n queryParams batchSize md st' w''))"

subsection \<open>readMaterializedPages\<close>

text \<open>
  The generator's state is \<open>lastCursor\<close> (\<open>null\<close> at first) and the documents of the
  current snapshot that the inner \<open>for\<close> loop has not yielded yet.
\<close>

record rm_state =
  rm_lastCursor :: "string option"
  rm_pending :: "entry list"

definition readMaterializedPages_init :: rm_state where
  "readMaterializedPages_init = \<lparr>rm_lastCursor = None, rm_pending = []\<rparr>"

definition cursor_value :: "string option \<Rightarrow> fvalue" where
  "cursor_value c = (case c of None \<Rightarrow> VNull | Some s \<Rightarrow> VStr s)"

text \<open>
  The query of one iteration: \<open>orderBy('cursor')\<close>, \<open>startAfter(lastCursor)\<close>, and one
  \<open>where('metadata.' + key, '==', value)\<close> for each pair of the filter, when there is one.
\<close>

definition materialized_query :: "string option \<Rightarrow> meta option \<Rightarrow> fs_error + fquery" where
  "materialized_query lc metadataFilter =
     (case query collection_query [OrderBy ''cursor'' Asc, StartAfter (cursor_value lc)] of
        Inl e \<Rightarrow> Inl e
      | Inr q \<Rightarrow>
          (case metadataFilter of
             None \<Rightarrow> Inr q
           | Some flt \<Rightarrow> query q (map (\<lambda>(key, v). Where (''metadata.'' @ key) v) flt)))"

definition yield_entry :: "entry \<Rightarrow> entry list \<Rightarrow> ((docdata list \<times> meta option), rm_state) gen_step" where
  "yield_entry d rest =
     Yielded (pg_data (e_fields d), pg_metadata (e_fields d))
             \<lparr>rm_lastCursor = pg_cursor (e_fields d), rm_pending = rest\<rparr>"

definition readMaterializedPages_next ::
  "meta option \<Rightarrow> rm_state \<Rightarrow> world \<Rightarrow> ((docdata list \<times> meta option), rm_state) gen_step \<times> world" where
  "readMaterializedPages_next metadataFilter st w =
     (case rm_pending st of
        d # rest \<Rightarrow> (yield_entry d rest, w)
      | [] \<Rightarrow>
          (case materialized_query (rm_lastCursor st) metadataFilter of
             Inl e \<Rightarrow> (Threw e, w)
           | Inr currentQuery \<Rightarrow>
               (case getDocs_destination currentQuery w of
                  (Inl e, w') \<Rightarrow> (Threw e, w')
                | (Inr [], w') \<Rightarrow> (Finished, w')
                | (Inr (d # rest), w') \<Rightarrow> (yield_entry d rest, w'))))"

fun readMaterializedPages_pull ::
  "nat \<Rightarrow> meta option \<Rightarrow> rm_state \<Rightarrow> world \<Rightarrow> ((docdata list \<times> meta option) list \<times> rm_state status) \<times> world" where
  "readMaterializedPages_pull 0 metadataFilter st w = (([], Suspended st), w)"
| "readMaterializedPages_pull (Suc n) metadataFilter st w =
     (case readMaterializedPages_next metadataFilter st w of
        (Threw e, w') \<Rightarrow> (([], Failed e), w')
      | (Finished, w') \<Rightarrow> (([], Completed), w')
      | (Yielded y st', w') \<Rightarrow>
          (case readMaterializedPages_pull n metadataFilter st' w' of
             ((ys, s), w'') \<Rightarrow> ((y # ys, s), w'')))"

definition readMaterializedPages ::
  "nat \<Rightarrow> meta option \<Rightarrow> world \<Rightarrow> ((docdata list \<times> meta option) list \<times> rm_state status) \<times> world" where
  "readMaterializedPages n metadataFilter w =
     readMaterializedPages_pull n metadataFilter readMaterializedPages_init w"

section \<open>Vocabulary of the properties\<close>

subsection \<open>Runs\<close>

text \<open>What a consumer received from a generator, and how the generator stood at the end.\<close>

definition yielded :: "('y list \<times> 's) \<times> world \<Rightarrow> 'y list" where
  "yielded r = fst (fst r)"

definition ended :: "('y list \<times> 's) \<times> world \<Rightarrow> 's" where
  "ended r = snd (fst r)"


definition entry_out :: "entry \<Rightarrow> docdata list \<times> meta option" where
  "entry_out e = (pg_data (e_fields e), pg_metadata (e_fields e))"

text \<open>The store calls logged between two worlds, and a store that does not fail the next call.\<close>

definition new_calls :: "world \<Rightarrow> world \<Rightarrow> (call \<times> fs_error option) list" where
  "new_calls w w' = drop (length (calls w)) (calls w')"

definition accepts_next_call :: "world \<Rightarrow> bool" where
  "accepts_next_call w = (case faults w of [] \<Rightarrow> True | r # rs \<Rightarrow> r = None)"

subsection \<open>Pages of a source query\<close>

text \<open>
  The full ordered result of the caller's query, without a limit, and the caller's queries
  whose only ordering is ascending document id.
\<close>

definition source_results :: "constraint list \<Rightarrow> document list \<Rightarrow> document list" where
  "source_results queryParams coll =
     (case query collection_query queryParams of
        Inl e \<Rightarrow> []
      | Inr q \<Rightarrow> run_query document_field (q\<lparr>q_limit := None\<rparr>) coll)"


text \<open>A list cut into consecutive batches of \<open>b\<close> elements, the last one possibly shorter.\<close>

function batches :: "nat \<Rightarrow> 'a list \<Rightarrow> 'a list list" where
  "batches b xs = (if b = 0 \<or> xs = [] then [] else take b xs # batches b (drop b xs))"
  by pat_completeness auto
termination
  by (relation "measure (\<lambda>(b, xs). length xs)") auto

declare batches.simps [simp del]

text \<open>
  The page \<open>readPages\<close> builds from a non-empty batch as page number \<open>k\<close>, and the pages
  of successive batches, numbered from \<open>k\<close>.
\<close>

definition make_page :: "meta option \<Rightarrow> nat \<Rightarrow> document list \<Rightarrow> page" where
  "make_page md k docs =
     \<lparr>pg_cursor = Some (doc_id (last docs)), pg_data = map doc_data docs,
      pg_metadata = Some (pageMetadata md k)\<rparr>"


text \<open>One page has its cursor strictly before the other's.\<close>

definition cursor_before :: "page \<Rightarrow> page \<Rightarrow> bool" where
  "cursor_before p p' =
     (case (pg_cursor p, pg_cursor p') of (Some c, Some c') \<Rightarrow> c < c' | _ \<Rightarrow> False)"

subsection \<open>Entries of the destination\<close>

text \<open>
  The filters whose keys give valid field paths \<open>metadata.key\<close>; the query
  \<open>readMaterializedPages\<close> builds for a given last cursor; the order the store
  gives to its results (by cursor, then by document id); the entries whose stored metadata
  has every pair of the filter; those entries in the store's order; and, of these, the ones
  after the \<open>null\<close> bound of the first query.
\<close>

definition valid_filter :: "meta option \<Rightarrow> bool" where
  "valid_filter metadataFilter =
     (case metadataFilter of
        None \<Rightarrow> True
      | Some flt \<Rightarrow> list_all (\<lambda>(key, v). valid_field_path (''metadata.'' @ key)) flt)"

definition materialized_fquery :: "string option \<Rightarrow> meta option \<Rightarrow> fquery" where
  "materialized_fquery lc metadataFilter =
     \<lparr>q_filters = (case metadataFilter of None \<Rightarrow> []
                   | Some flt \<Rightarrow> map (\<lambda>(key, v). (''metadata.'' @ key, v)) flt),
      q_orderBy = [(''cursor'', Asc)], q_limit = None,
      q_startAfter = Some (cursor_value lc)\<rparr>"

definition entry_cursor :: "entry \<Rightarrow> fvalue" where
  "entry_cursor e = cursor_value (pg_cursor (e_fields e))"

definition entry_before :: "entry \<Rightarrow> entry \<Rightarrow> bool" where
  "entry_before a b =
     (fv_less (entry_cursor a) (entry_cursor b) \<or>
      (entry_cursor a = entry_cursor b \<and> e_id a < e_id b))"

definition filter_holds :: "meta option \<Rightarrow> entry \<Rightarrow> bool" where
  "filter_holds metadataFilter e =
     (case metadataFilter of
        None \<Rightarrow> True
      | Some flt \<Rightarrow>
          list_all (\<lambda>(key, v). CHR ''.'' \<notin> set key \<and>
                      (case pg_metadata (e_fields e) of None \<Rightarrow> False | Some md \<Rightarrow> map_of md key = Some v))
                   flt)"

definition matching_entries :: "meta option \<Rightarrow> entry list \<Rightarrow> entry list" where
  "matching_entries metadataFilter dest = sort_by entry_before (filter (filter_holds metadataFilter) dest)"

definition readable_entries :: "meta option \<Rightarrow> entry list \<Rightarrow> entry list" where
  "readable_entries metadataFilter dest =
     filter (\<lambda>e. pg_cursor (e_fields e) \<noteq> None) (matching_entries metadataFilter dest)"


subsection \<open>Traces of the materializer\<close>





subsection \<open>Concrete inputs\<close>

definition example_world :: "document list \<Rightarrow> fs_error option list \<Rightarrow> world" where
  "example_world src fs =
     \<lparr>source = src, destination = [], faults = fs,
      autoId = (\<lambda>n. ''auto'' @ replicate n (CHR ''x'')), calls = [],
      ignoreUndefinedProperties = False\<rparr>"

definition two_documents :: "document list" where
  "two_documents =
     [\<lparr>doc_id = ''b'', doc_data = [(''title'', VStr ''second'')]\<rparr>,
      \<lparr>doc_id = ''a'', doc_data = [(''title'', VStr ''first'')]\<rparr>]"

definition ranked_documents :: "document list" where
  "ranked_documents =
     [\<lparr>doc_id = ''z'', doc_data = [(''rank'', VStr ''a'')]\<rparr>,
      \<lparr>doc_id = ''y'', doc_data = [(''rank'', VStr ''b'')]\<rparr>]"

definition twenty_five_documents :: "document list" where
  "twenty_five_documents =
     map (\<lambda>(i, t). \<lparr>doc_id = i, doc_data = [(''timestamp'', VNum t)]\<rparr>)
       [(''d00'', 1700000000), (''d01'', 1700000060), (''d02'', 1700000120), (''d03'', 1700000180), (''d04'', 1700000240), (''d05'', 1700000300), (''d06'', 1700000360), (''d07'', 1700000420), (''d08'', 1700000480), (''d09'', 1700000540), (''d10'', 1700000600), (''d11'', 1700000660), (''d12'', 1700000720), (''d13'', 1700000780), (''d14'', 1700000840), (''d15'', 1700000900), (''d16'', 1700000960), (''d17'', 1700001020), (''d18'', 1700001080), (''d19'', 1700001140), (''d20'', 1700001200), (''d21'', 1700001260), (''d22'', 1700001320), (''d23'', 1700001380), (''d24'', 1700001440)]"

definition two_entries :: "entry list" where
  "two_entries =
     [\<lparr>e_id = ''k2'', e_fields = \<lparr>pg_cursor = Some ''d7'', pg_data = [[(''title'', VStr ''first'')]],
                                   pg_metadata = Some [(''id'', VStr ''a''), (''pageNumber'', VNum 1)]\<rparr>\<rparr>,
      \<lparr>e_id = ''k1'', e_fields = \<lparr>pg_cursor = Some ''d4'', pg_data = [[(''title'', VStr ''second'')]],
                                   pg_metadata = Some [(''id'', VStr ''b''), (''pageNumber'', VNum 1)]\<rparr>\<rparr>]"

definition materialized_world :: world where
  "materialized_world = (example_world [] []) \<lparr>destination := two_entries\<rparr>"






definition by_field :: "constraint list" where
  "by_field = [OrderBy ''rank'' Asc]"


definition by_timestamp_desc :: "constraint list" where
  "by_timestamp_desc = [OrderBy ''timestamp'' Desc]"

definition no_match_params :: "constraint list" where
  "no_match_params = [Where ''status'' (VStr ''published''), OrderBy ''__name__'' Asc]"

definition no_match_query :: fquery where
  "no_match_query =
     \<lparr>q_filters = [(''status'', VStr ''published'')], q_orderBy = [(''__name__'', Asc)],
      q_limit = Some 10, q_startAfter = None\<rparr>"

section \<open>Basic facts about the store\<close>

lemma store_call_cases:
  "store_call c w = (out, w') \<Longrightarrow>
     source w' = source w \<and> destination w' = destination w \<and> autoId w' = autoId w \<and>
     calls w' = calls w @ [(c, out)] \<and>
     (faults w = [] \<longrightarrow> out = None \<and> faults w' = []) \<and>
     (\<forall>r rs. faults w = r # rs \<longrightarrow> out = r \<and> faults w' = rs)"
  by (auto simp: store_call_def split: list.splits)

lemma collect_batch_foldl:
  "foldl (\<lambda>(dat, cur) d. (dat @ [doc_data d], Some (doc_id d))) (acc, c) docs =
     (acc @ map doc_data docs, if docs = [] then c else Some (doc_id (last docs)))"
  by (induction docs arbitrary: acc c) auto

lemma collect_batch_eq:
  "collect_batch docs = (map doc_data docs, if docs = [] then None else Some (doc_id (last docs)))"
  by (simp add: collect_batch_def collect_batch_foldl)


subsection \<open>Sorting\<close>

lemma set_insort_by: "set (insort_by lt x ys) = insert x (set ys)"
  by (induction ys) auto

lemma set_sort_by: "set (sort_by lt xs) = set xs"
  by (induction xs) (auto simp: sort_by_def set_insort_by)

lemma length_insort_by: "length (insort_by lt x ys) = Suc (length ys)"
  by (induction ys) auto

lemma length_sort_by: "length (sort_by lt xs) = length xs"
  by (induction xs) (auto simp: sort_by_def length_insort_by)

lemma sorted_insort_by:
  assumes asym: "\<And>a b. lt a b \<Longrightarrow> \<not> lt b a"
    and ntrans: "\<And>a b c. \<not> lt b a \<Longrightarrow> \<not> lt c b \<Longrightarrow> \<not> lt c a"
  shows "sorted_wrt (\<lambda>a b. \<not> lt b a) ys \<Longrightarrow> sorted_wrt (\<lambda>a b. \<not> lt b a) (insort_by lt x ys)"
proof (induction ys)
  case Nil
  then show ?case by simp
next
  case (Cons y ys)
  show ?case
  proof (cases "lt y x")
    case True
    then have "\<not> lt x y" by (rule asym)
    with True Cons show ?thesis by (auto simp: set_insort_by)
  next
    case False
    with Cons.prems show ?thesis by auto (metis ntrans)
  qed
qed

lemma sorted_sort_by:
  assumes "\<And>a b. lt a b \<Longrightarrow> \<not> lt b a"
    and "\<And>a b c. \<not> lt b a \<Longrightarrow> \<not> lt c b \<Longrightarrow> \<not> lt c a"
  shows "sorted_wrt (\<lambda>a b. \<not> lt b a) (sort_by lt xs)"
proof (induction xs)
  case Nil
  show ?case by (simp add: sort_by_def)
next
  case (Cons x xs)
  have "sort_by lt (x # xs) = insort_by lt x (sort_by lt xs)" by (simp add: sort_by_def)
  with Cons sorted_insort_by [of lt "sort_by lt xs" x] assms show ?case by metis
qed




subsection \<open>Order of values\<close>

lemma fv_less_irrefl: "\<not> fv_less x x"
  by (cases x) auto

lemma fv_less_asym: "fv_less x y \<Longrightarrow> \<not> fv_less y x"
  by (cases x; cases y) auto

lemma fv_less_trans: "fv_less x y \<Longrightarrow> fv_less y z \<Longrightarrow> fv_less x z"
  by (cases x; cases y; cases z) auto

lemma fv_less_total: "fv_less x y \<or> x = y \<or> fv_less y x"
  by (cases x; cases y) auto


section \<open>One request to \<open>readPages\<close>\<close>

lemma getDocs_source_eq:
  "getDocs_source q w =
     (case store_call (GetDocs Source q) w of
        (Some e, w') \<Rightarrow> (Inl e, w')
      | (None, w') \<Rightarrow> (Inr (run_query document_field q (source w)), w'))"
  by (auto simp: getDocs_source_def split: prod.splits option.splits dest: store_call_cases)

lemma getDocs_destination_eq:
  "getDocs_destination q w =
     (case store_call (GetDocs Destination q) w of
        (Some e, w') \<Rightarrow> (Inl e, w')
      | (None, w') \<Rightarrow> (Inr (run_query entry_field q (destination w)), w'))"
  by (auto simp: getDocs_destination_def split: prod.splits option.splits dest: store_call_cases)

lemma readPages_next_eq:
  "readPages_next qp b md st w =
     (case readPages_query qp b (lastCursor st) of
        Inl e \<Rightarrow> (Threw e, w)
      | Inr q \<Rightarrow>
          (case store_call (GetDocs Source q) w of
             (Some e, w') \<Rightarrow> (Threw e, w')
           | (None, w') \<Rightarrow>
               (let docs = run_query document_field q (source w)
                in if docs = [] then (Finished, w')
                   else (Yielded (make_page md (pageNumber st) docs)
                           \<lparr>lastCursor = Some (last docs), pageNumber = pageNumber st + 1\<rparr>, w'))))"
  by (auto simp: readPages_next_def getDocs_source_eq collect_batch_eq make_page_def Let_def
           split: sum.splits prod.splits option.splits)

lemma readPages_next_Yielded:
  assumes "readPages_next qp b md st w = (Yielded p st', w')"
  shows "\<exists>q docs. readPages_query qp b (lastCursor st) = Inr q \<and>
           store_call (GetDocs Source q) w = (None, w') \<and>
           docs = run_query document_field q (source w) \<and> docs \<noteq> [] \<and>
           p = make_page md (pageNumber st) docs \<and>
           st' = \<lparr>lastCursor = Some (last docs), pageNumber = pageNumber st + 1\<rparr>"
  using assms unfolding readPages_next_eq
  by (auto simp: Let_def split: sum.splits prod.splits option.splits if_splits)

lemma readPages_next_metadata:
  assumes "readPages_next qp b md st w = (Yielded p st', w')"
  shows "pg_metadata p = Some (pageMetadata md (pageNumber st))"
  using readPages_next_Yielded [OF assms] by (auto simp: make_page_def)



lemma readPages_pull_metadata:
  "readPages_pull n qp b md st w = ((pages, s), w') \<Longrightarrow> k < length pages \<Longrightarrow>
     pg_metadata (pages ! k) = Some (pageMetadata md (pageNumber st + k))"
proof (induction n arbitrary: st w pages k s w')
  case 0
  then show ?case by simp
next
  case (Suc n)
  obtain g w1 where nx: "readPages_next qp b md st w = (g, w1)" by (cases "readPages_next qp b md st w")
  show ?case
  proof (cases g)
    case (Yielded p st')
    obtain ps s2 w2 where rest: "readPages_pull n qp b md st' w1 = ((ps, s2), w2)"
      by (metis prod.exhaust)
    with Suc.prems(1) nx Yielded have pages: "pages = p # ps" by simp
    from readPages_next_Yielded [OF nx [unfolded Yielded]]
    have p: "pg_metadata p = Some (pageMetadata md (pageNumber st))"
      and st': "pageNumber st' = pageNumber st + 1"
      by (auto simp: make_page_def)
    show ?thesis
    proof (cases k)
      case 0
      with pages p show ?thesis by simp
    next
      case (Suc j)
      with Suc.prems(2) pages have "j < length ps" by simp
      from Suc.IH [OF rest this] st' Suc pages show ?thesis by simp
    qed
  next
    case Finished
    with Suc.prems nx show ?thesis by simp
  next
    case (Threw e)
    with Suc.prems nx show ?thesis by simp
  qed
qed

lemma map_of_pageMetadata:
  "map_of (pageMetadata md k) =
     (case md of None \<Rightarrow> Map.empty | Some m \<Rightarrow> map_of m)(''pageNumber'' \<mapsto> VNum (int k))"
  by (auto simp: pageMetadata_def update_conv split: option.splits)

section \<open>One write\<close>

text \<open>
  C9 as stated, for every call, fails. A write the store fails persists nothing
  and the call ends with the store's error; and a call without metadata passes
  \<open>metadata: undefined\<close> to \<open>addDoc\<close>, which under the default settings
  rejects the data before any store call, so nothing is persisted either.
\<close>

theorem savePageToCollection_counterexample:
  "fst (savePageToCollection [[(''title'', VStr ''first'')]] (Some ''a'') (Some [(''id'', VStr ''q'')])
          (example_world two_documents [Some (StoreFailure 7)])) = Inl (StoreFailure 7) \<and>
   destination (snd (savePageToCollection [[(''title'', VStr ''first'')]] (Some ''a'') (Some [(''id'', VStr ''q'')])
          (example_world two_documents [Some (StoreFailure 7)]))) = [] \<and>
   fst (savePageToCollection [[(''title'', VStr ''first'')]] (Some ''a'') None
          (example_world two_documents [])) = Inl InvalidArgument \<and>
   destination (snd (savePageToCollection [[(''title'', VStr ''first'')]] (Some ''a'') None
          (example_world two_documents []))) = [] \<and>
   calls (snd (savePageToCollection [[(''title'', VStr ''first'')]] (Some ''a'') None
          (example_world two_documents []))) = []"
  by (simp add: savePageToCollection_def addDoc_def store_call_def example_world_def)

text \<open>
  C9, as amended. For every call that supplies metadata and whose write the store
  accepts, \<open>savePageToCollection\<close> makes exactly one store call, an insert of
  \<open>{cursor, data, metadata}\<close> as given, and the destination afterwards is the destination
  before followed by one new entry with exactly these fields; the source collection
  and all earlier entries are unchanged.
\<close>

theorem savePageToCollection_one_entry:
  assumes "accepts_next_call w"
  shows "savePageToCollection dat cur (Some m) w =
           (Inr (),
            w\<lparr>faults := tl (faults w),
              calls := calls w @ [(AddDoc \<lparr>pg_cursor = cur, pg_data = dat, pg_metadata = Some m\<rparr>, None)],
              destination := destination w @
                [\<lparr>e_id = autoId w (length (destination w)),
                  e_fields = \<lparr>pg_cursor = cur, pg_data = dat, pg_metadata = Some m\<rparr>\<rparr>]\<rparr>)"
  using assms
  by (auto simp: savePageToCollection_def addDoc_def store_call_def accepts_next_call_def
           split: list.splits)

theorem savePageToCollection_one_entry_witness:
  "accepts_next_call (example_world two_documents [None]) \<and>
   savePageToCollection [[(''title'', VStr ''first'')]] (Some ''a'') (Some [(''id'', VStr ''q'')])
       (example_world two_documents [None]) =
     (Inr (),
      (example_world two_documents [None])
        \<lparr>faults := tl (faults (example_world two_documents [None])),
         calls := calls (example_world two_documents [None]) @
           [(AddDoc \<lparr>pg_cursor = Some ''a'', pg_data = [[(''title'', VStr ''first'')]],
                     pg_metadata = Some [(''id'', VStr ''q'')]\<rparr>, None)],
         destination := destination (example_world two_documents [None]) @
           [\<lparr>e_id = autoId (example_world two_documents [None])
                     (length (destination (example_world two_documents [None]))),
             e_fields = \<lparr>pg_cursor = Some ''a'', pg_data = [[(''title'', VStr ''first'')]],
                          pg_metadata = Some [(''id'', VStr ''q'')]\<rparr>\<rparr>]\<rparr>)"
proof -
  have a: "accepts_next_call (example_world two_documents [None])"
    by (simp add: accepts_next_call_def example_world_def)
  show ?thesis
    by (rule conjI [OF a savePageToCollection_one_entry [OF a]])
qed

section \<open>Page numbers\<close>

text \<open>
  C5. The page at index \<open>k\<close> (counting from 0) of those one call to \<open>readPages\<close> yields
  carries a defined metadata mapping: the caller's metadata, if any, with
  \<open>pageNumber\<close> set to \<open>k + 1\<close>, overriding a caller field of that name.
\<close>

theorem readPages_pageNumber:
  assumes "k < length (yielded (readPages n queryParams batchSize md w))"
  shows "\<exists>m. pg_metadata (yielded (readPages n queryParams batchSize md w) ! k) = Some m \<and>
             map_of m = (case md of None \<Rightarrow> Map.empty | Some base \<Rightarrow> map_of base)
                          (''pageNumber'' \<mapsto> VNum (int k + 1))"
proof -
  obtain pages s w' where run: "readPages_pull n queryParams batchSize md readPages_init w = ((pages, s), w')"
    by (metis prod.exhaust)
  with assms have "k < length pages" by (simp add: yielded_def readPages_def)
  from readPages_pull_metadata [OF run this] run
  show ?thesis
    by (simp add: yielded_def readPages_def map_of_pageMetadata readPages_init_def add.commute)
qed

theorem readPages_pageNumber_witness:
  "1 < length (yielded (readPages 5 [OrderBy ''__name__'' Asc] 1
                  (Some [(''pageNumber'', VStr ''x''), (''id'', VStr ''q'')])
                  (example_world two_documents []))) \<and>
   (\<exists>m. pg_metadata (yielded (readPages 5 [OrderBy ''__name__'' Asc] 1
                  (Some [(''pageNumber'', VStr ''x''), (''id'', VStr ''q'')])
                  (example_world two_documents [])) ! 1) = Some m \<and>
        map_of m = (case Some [(''pageNumber'', VStr ''x''), (''id'', VStr ''q'')] of
                      None \<Rightarrow> Map.empty | Some base \<Rightarrow> map_of base)
                     (''pageNumber'' \<mapsto> VNum (int 1 + 1)))"
proof -
  have len: "1 < length (yielded (readPages 5 [OrderBy ''__name__'' Asc] 1
                  (Some [(''pageNumber'', VStr ''x''), (''id'', VStr ''q'')])
                  (example_world two_documents [])))"
    by code_simp
  show ?thesis
    by (rule conjI [OF len readPages_pageNumber [OF len]])
qed

section \<open>The queries of \<open>readMaterializedPages\<close>\<close>

lemma query_Where_list:
  "query q (map (\<lambda>(key, v). Where (p @ key) v) flt) =
     (if list_all (\<lambda>(key, v). valid_field_path (p @ key)) flt
      then Inr (q\<lparr>q_filters := q_filters q @ map (\<lambda>(key, v). (p @ key, v)) flt\<rparr>)
      else Inl InvalidArgument)"
  by (induction flt arbitrary: q) (auto split: prod.splits)

lemma valid_cursor_path: "valid_field_path ''cursor''"
  by code_simp

lemma materialized_query_eq:
  "materialized_query lc metadataFilter =
     (if valid_filter metadataFilter then Inr (materialized_fquery lc metadataFilter)
      else Inl InvalidArgument)"
proof (cases metadataFilter)
  case None
  then show ?thesis
    by (simp add: materialized_query_def materialized_fquery_def collection_query_def
        valid_filter_def valid_cursor_path)
next
  case (Some flt)
  with query_Where_list [of _ "''metadata.''" flt] show ?thesis
    by (simp add: materialized_query_def materialized_fquery_def collection_query_def
        valid_filter_def valid_cursor_path)
qed

lemma materialized_fquery_sel:
  "q_filters (materialized_fquery lc metadataFilter) =
     (case metadataFilter of None \<Rightarrow> [] | Some flt \<Rightarrow> map (\<lambda>(key, v). (''metadata.'' @ key, v)) flt)"
  "q_orderBy (materialized_fquery lc metadataFilter) = [(''cursor'', Asc)]"
  "q_limit (materialized_fquery lc metadataFilter) = None"
  "q_startAfter (materialized_fquery lc metadataFilter) = Some (cursor_value lc)"
  by (simp_all add: materialized_fquery_def)

lemma strip_prefix_append: "strip_prefix p (p @ s) = Some s"
  by (induction p) auto

lemma entry_field_metadata:
  "entry_field e (''metadata.'' @ key) =
     (if CHR ''.'' \<in> set key then None
      else case pg_metadata (e_fields e) of None \<Rightarrow> None | Some md \<Rightarrow> map_of md key)"
proof -
  have "strip_prefix ''metadata.'' (''metadata.'' @ key) = Some key"
    by (rule strip_prefix_append)
  then show ?thesis by (simp add: entry_field_def)
qed

lemma normalized_materialized:
  "normalized_orderBy (materialized_fquery lc flt) = [(''cursor'', Asc), (''__name__'', Asc)]"
  by (simp add: normalized_orderBy_def materialized_fquery_sel)

lemma entry_field_cursor: "entry_field e ''cursor'' = Some (entry_cursor e)"
  by (simp add: entry_field_def entry_cursor_def cursor_value_def)

lemma entry_field_name: "entry_field e ''__name__'' = Some (VStr (e_id e))"
  by (simp add: entry_field_def)

lemma matches_materialized:
  "matches entry_field (materialized_fquery lc flt) e = filter_holds flt e"
proof (cases flt)
  case None
  then show ?thesis
    by (simp add: matches_def normalized_materialized entry_field_cursor entry_field_name
        filter_holds_def materialized_fquery_sel del: append.simps)
next
  case (Some f)
  have "list_all (\<lambda>(fl, v). entry_field e fl = Some v) (map (\<lambda>(key, v). (''metadata.'' @ key, v)) f) =
        list_all (\<lambda>(key, v). CHR ''.'' \<notin> set key \<and>
                      (case pg_metadata (e_fields e) of None \<Rightarrow> False | Some md \<Rightarrow> map_of md key = Some v)) f"
    by (induction f) (auto simp: entry_field_metadata [simplified] split: option.splits if_splits)
  with Some show ?thesis
    by (simp add: matches_def normalized_materialized entry_field_cursor entry_field_name
        filter_holds_def materialized_fquery_sel del: append.simps)
qed

lemma doc_before_materialized:
  "doc_before entry_field [(''cursor'', Asc), (''__name__'', Asc)] a b = entry_before a b"
  by (simp add: entry_field_cursor entry_field_name entry_before_def)

lemma after_bound_materialized:
  "after_bound entry_field (materialized_fquery lc flt) v e = fv_less v (entry_cursor e)"
  by (simp add: after_bound_def normalized_materialized entry_field_cursor)

lemma run_materialized_query:
  "run_query entry_field (materialized_fquery lc flt) dest =
     filter (\<lambda>e. fv_less (cursor_value lc) (entry_cursor e)) (matching_entries flt dest)"
proof -
  have m: "matches entry_field (materialized_fquery lc flt) = filter_holds flt"
    by (rule ext) (rule matches_materialized)
  have b: "doc_before entry_field [(''cursor'', Asc), (''__name__'', Asc)] = entry_before"
    by (intro ext) (rule doc_before_materialized)
  have a: "after_bound entry_field (materialized_fquery lc flt) (cursor_value lc) =
             (\<lambda>e. fv_less (cursor_value lc) (entry_cursor e))"
    by (rule ext) (rule after_bound_materialized)
  note l = materialized_fquery_sel(3) [of lc flt] and s = materialized_fquery_sel(4) [of lc flt]
  show ?thesis
    by (simp add: run_query_def ordered_matches_def normalized_materialized m b a l s
        matching_entries_def)
qed

lemma entry_before_asym: "entry_before a b \<Longrightarrow> \<not> entry_before b a"
  by (auto simp: entry_before_def dest: fv_less_asym simp: fv_less_irrefl)

lemma entry_before_ntrans:
  "\<not> entry_before b a \<Longrightarrow> \<not> entry_before c b \<Longrightarrow> \<not> entry_before c a"
  unfolding entry_before_def
  by (metis fv_less_total fv_less_trans fv_less_asym not_less_iff_gr_or_eq less_trans)

lemma sorted_matching_entries:
  "sorted_wrt (\<lambda>a b. \<not> entry_before b a) (matching_entries flt dest)"
  unfolding matching_entries_def
proof (rule sorted_sort_by)
  fix a b
  assume "entry_before a b"
  then show "\<not> entry_before b a" by (rule entry_before_asym)
next
  fix a b c
  assume "\<not> entry_before b a" "\<not> entry_before c b"
  then show "\<not> entry_before c a" by (rule entry_before_ntrans)
qed

lemma set_matching_entries:
  "set (matching_entries flt dest) = {e \<in> set dest. filter_holds flt e}"
  by (simp add: matching_entries_def set_sort_by)

lemma fv_less_Null: "fv_less VNull x = (x \<noteq> VNull)"
  by (cases x) auto

lemma fv_less_Null_right: "\<not> fv_less x VNull"
  by (cases x) auto

lemma sorted_wrt_last:
  "sorted_wrt Q xs \<Longrightarrow> x \<in> set xs \<Longrightarrow> x = last xs \<or> Q x (last xs)"
  by (induction xs) (auto split: if_splits)

lemma nothing_after_last_cursor:
  assumes r: "r = filter (\<lambda>e. fv_less VNull (entry_cursor e)) (matching_entries flt dest)"
    and ne: "r \<noteq> []"
  shows "filter (\<lambda>e. fv_less (entry_cursor (last r)) (entry_cursor e)) (matching_entries flt dest) = []"
proof -
  have sr: "sorted_wrt (\<lambda>a b. \<not> entry_before b a) r"
    unfolding r by (rule sorted_wrt_filter) (rule sorted_matching_entries)
  have "\<not> fv_less (entry_cursor (last r)) (entry_cursor e)" if "e \<in> set (matching_entries flt dest)" for e
  proof (cases "fv_less VNull (entry_cursor e)")
    case True
    with that have "e \<in> set r" by (simp add: r)
    from sorted_wrt_last [OF sr this] show ?thesis
      by (auto simp: fv_less_irrefl entry_before_def)
  next
    case False
    then have "entry_cursor e = VNull" by (simp add: fv_less_Null)
    then show ?thesis by (simp add: fv_less_Null_right)
  qed
  then show ?thesis by (simp add: filter_empty_conv)
qed

subsection \<open>Requests to \<open>readMaterializedPages\<close>\<close>

lemma cursor_value_simps:
  "cursor_value None = VNull" "cursor_value (Some c) = VStr c"
  by (simp_all add: cursor_value_def)

lemma first_batch_eq:
  "filter (\<lambda>e. fv_less (cursor_value None) (entry_cursor e)) (matching_entries flt dest) =
     readable_entries flt dest"
  unfolding readable_entries_def
  by (rule filter_cong [OF refl])
     (auto simp: cursor_value_def fv_less_Null entry_cursor_def split: option.splits)

lemma readMaterializedPages_next_eq:
  "readMaterializedPages_next flt st w =
     (case rm_pending st of
        d # rest \<Rightarrow> (Yielded (entry_out d) \<lparr>rm_lastCursor = pg_cursor (e_fields d), rm_pending = rest\<rparr>, w)
      | [] \<Rightarrow>
          (if \<not> valid_filter flt then (Threw InvalidArgument, w)
           else
             (case store_call (GetDocs Destination (materialized_fquery (rm_lastCursor st) flt)) w of
                (Some e, w') \<Rightarrow> (Threw e, w')
              | (None, w') \<Rightarrow>
                  (case filter (\<lambda>e. fv_less (cursor_value (rm_lastCursor st)) (entry_cursor e))
                          (matching_entries flt (destination w)) of
                     [] \<Rightarrow> (Finished, w')
                   | d # rest \<Rightarrow>
                       (Yielded (entry_out d) \<lparr>rm_lastCursor = pg_cursor (e_fields d), rm_pending = rest\<rparr>, w')))))"
  by (auto simp: readMaterializedPages_next_def materialized_query_eq getDocs_destination_eq
        run_materialized_query yield_entry_def entry_out_def
      split: list.splits prod.splits option.splits)

lemma pull_pending_all:
  "readMaterializedPages_pull (length ds + m) flt \<lparr>rm_lastCursor = lc, rm_pending = ds\<rparr> w =
     (case readMaterializedPages_pull m flt
             \<lparr>rm_lastCursor = (if ds = [] then lc else pg_cursor (e_fields (last ds))), rm_pending = []\<rparr> w of
        ((ys, s), w') \<Rightarrow> ((map entry_out ds @ ys, s), w'))"
proof (induction ds arbitrary: lc)
  case Nil
  show ?case by (simp split: prod.splits)
next
  case (Cons d ds)
  show ?case
    by (simp add: readMaterializedPages_next_eq Cons.IH split: prod.splits)
qed

lemma pull_pending_some:
  "n \<le> length ds \<Longrightarrow>
     \<exists>st. readMaterializedPages_pull n flt \<lparr>rm_lastCursor = lc, rm_pending = ds\<rparr> w =
       ((map entry_out (take n ds), Suspended st), w)"
proof (induction ds arbitrary: lc n)
  case Nil
  then show ?case by simp
next
  case (Cons d ds)
  show ?case
  proof (cases n)
    case 0
    then show ?thesis by simp
  next
    case (Suc k)
    with Cons.prems have "k \<le> length ds" by simp
    from Cons.IH [OF this, of "pg_cursor (e_fields d)"] Suc show ?thesis
      by (auto simp: readMaterializedPages_next_eq)
  qed
qed

lemma second_request:
  assumes "r = readable_entries flt (destination w)" and "r \<noteq> []" and "valid_filter flt"
  shows "readMaterializedPages_pull (Suc j) flt \<lparr>rm_lastCursor = pg_cursor (e_fields (last r)), rm_pending = []\<rparr> w =
           (case store_call (GetDocs Destination (materialized_fquery (pg_cursor (e_fields (last r))) flt)) w of
              (Some e, w') \<Rightarrow> (([], Failed e), w')
            | (None, w') \<Rightarrow> (([], Completed), w'))"
proof -
  have "filter (\<lambda>e. fv_less (entry_cursor (last r)) (entry_cursor e)) (matching_entries flt (destination w)) = []"
    using assms(1,2) nothing_after_last_cursor [of r flt "destination w"] first_batch_eq [of flt "destination w"]
    by (simp add: cursor_value_simps)
  then show ?thesis
    using assms(3)
    by (simp add: readMaterializedPages_next_eq entry_cursor_def split: prod.splits option.splits)
qed

lemma readMaterializedPages_invalid:
  "\<not> valid_filter flt \<Longrightarrow>
     readMaterializedPages (Suc k) flt w = (([], Failed InvalidArgument), w)"
  by (simp add: readMaterializedPages_def readMaterializedPages_init_def readMaterializedPages_next_eq)

lemma readMaterializedPages_Suc:
  "valid_filter flt \<Longrightarrow>
   readMaterializedPages (Suc k) flt w =
     (case store_call (GetDocs Destination (materialized_fquery None flt)) w of
        (Some e, w1) \<Rightarrow> (([], Failed e), w1)
      | (None, w1) \<Rightarrow>
          (case readable_entries flt (destination w) of
             [] \<Rightarrow> (([], Completed), w1)
           | d # rest \<Rightarrow>
               (case readMaterializedPages_pull k flt \<lparr>rm_lastCursor = pg_cursor (e_fields d), rm_pending = rest\<rparr> w1 of
                  ((ys, s), w') \<Rightarrow> ((entry_out d # ys, s), w'))))"
  by (simp add: readMaterializedPages_def readMaterializedPages_init_def readMaterializedPages_next_eq
        first_batch_eq [unfolded cursor_value_simps] cursor_value_simps
      split: prod.splits option.splits list.splits)

lemma readMaterializedPages_all:
  assumes "r = readable_entries flt (destination w)" and "length r < n" and v: "valid_filter flt"
  shows "readMaterializedPages n flt w =
     (case store_call (GetDocs Destination (materialized_fquery None flt)) w of
        (Some e, w1) \<Rightarrow> (([], Failed e), w1)
      | (None, w1) \<Rightarrow>
          (if r = [] then (([], Completed), w1)
           else (case store_call (GetDocs Destination (materialized_fquery (pg_cursor (e_fields (last r))) flt)) w1 of
                   (Some e, w2) \<Rightarrow> ((map entry_out r, Failed e), w2)
                 | (None, w2) \<Rightarrow> ((map entry_out r, Completed), w2))))"
proof -
  from assms(2) obtain k where n: "n = Suc k" by (cases n) auto
  obtain out w1 where sc: "store_call (GetDocs Destination (materialized_fquery None flt)) w = (out, w1)"
    by (metis prod.exhaust)
  then have dest: "destination w1 = destination w" by (auto dest: store_call_cases)
  show ?thesis
  proof (cases out)
    case (Some e)
    with sc n show ?thesis by (simp add: readMaterializedPages_Suc [OF v])
  next
    case None
    show ?thesis
    proof (cases r)
      case Nil
      with sc None n assms(1) show ?thesis by (simp add: readMaterializedPages_Suc [OF v])
    next
      case (Cons d rest)
      with assms(2) n obtain j where k: "k = length rest + Suc j"
        by (metis Suc_less_eq length_Cons less_imp_Suc_add add_Suc_right)
      have r1: "r = readable_entries flt (destination w1)" using assms(1) dest by simp
      have lastr: "(if rest = [] then pg_cursor (e_fields d) else pg_cursor (e_fields (last rest))) =
                      pg_cursor (e_fields (last r))"
        using Cons by simp
      have rne: "r \<noteq> []" using Cons by simp
      have "readMaterializedPages_pull k flt \<lparr>rm_lastCursor = pg_cursor (e_fields d), rm_pending = rest\<rparr> w1 =
              (case store_call (GetDocs Destination (materialized_fquery (pg_cursor (e_fields (last r))) flt)) w1 of
                 (Some e, w2) \<Rightarrow> ((map entry_out rest, Failed e), w2)
               | (None, w2) \<Rightarrow> ((map entry_out rest, Completed), w2))"
        unfolding k pull_pending_all lastr second_request [OF r1 rne v]
        by (simp split: prod.splits option.splits)
      moreover have "readable_entries flt (destination w) = d # rest"
        using assms(1) Cons by simp
      ultimately show ?thesis
        using sc None n Cons
        by (simp add: readMaterializedPages_Suc [OF v] split: prod.splits option.splits)
    qed
  qed
qed

lemma store_call_new_calls:
  "store_call c w = (out, w') \<Longrightarrow> calls w' = calls w @ [(c, out)]"
  by (auto dest: store_call_cases)

lemma readMaterializedPages_shape_valid:
  assumes v: "valid_filter flt"
  shows "\<exists>m tr. yielded (readMaterializedPages n flt w) =
             map entry_out (take m (readable_entries flt (destination w))) \<and>
          calls (snd (readMaterializedPages n flt w)) = calls w @ tr \<and> length tr \<le> 2 \<and>
          (\<forall>x \<in> set tr. \<exists>lc out. x = (GetDocs Destination (materialized_fquery lc flt), out))"
proof (cases n)
  case 0
  have "yielded (readMaterializedPages 0 flt w) = map entry_out (take 0 (readable_entries flt (destination w)))"
    by (simp add: readMaterializedPages_def yielded_def)
  moreover have "calls (snd (readMaterializedPages 0 flt w)) = calls w @ []"
    by (simp add: readMaterializedPages_def)
  ultimately show ?thesis unfolding 0 by (intro exI [of _ 0] exI [of _ "[]"]) simp
next
  case (Suc k)
  define r where "r = readable_entries flt (destination w)"
  obtain out w1 where sc: "store_call (GetDocs Destination (materialized_fquery None flt)) w = (out, w1)"
    by (metis prod.exhaust)
  note c1 = store_call_new_calls [OF sc]
  show ?thesis
  proof (cases "length r < n")
    case True
    note all = readMaterializedPages_all [OF r_def True v]
    show ?thesis
    proof (cases out)
      case (Some e)
      with all sc c1 show ?thesis
        by (intro exI [of _ 0] exI [of _ "[(GetDocs Destination (materialized_fquery None flt), out)]"])
           (auto simp: yielded_def)
    next
      case None
      show ?thesis
      proof (cases "r = []")
        case True
        with all sc c1 None show ?thesis
          by (intro exI [of _ 0] exI [of _ "[(GetDocs Destination (materialized_fquery None flt), out)]"])
             (auto simp: yielded_def)
      next
        case False
        obtain out2 w2 where sc2:
          "store_call (GetDocs Destination (materialized_fquery (pg_cursor (e_fields (last r))) flt)) w1 = (out2, w2)"
          by (metis prod.exhaust)
        note c2 = store_call_new_calls [OF sc2]
        from all sc sc2 None False c1 c2 show ?thesis
          by (intro exI [of _ "length r"]
                exI [of _ "[(GetDocs Destination (materialized_fquery None flt), out),
                            (GetDocs Destination (materialized_fquery (pg_cursor (e_fields (last r))) flt), out2)]"])
             (auto simp: yielded_def r_def split: option.splits)
      qed
    qed
  next
    case False
    with Suc obtain d rest where r: "r = d # rest" and k: "k \<le> length rest"
      by (cases r) auto
    from pull_pending_some [OF k] obtain st where
      pull: "readMaterializedPages_pull k flt \<lparr>rm_lastCursor = pg_cursor (e_fields d), rm_pending = rest\<rparr> w1 =
               ((map entry_out (take k rest), Suspended st), w1)"
      by blast
    have re: "readable_entries flt (destination w) = d # rest" using r r_def by simp
    show ?thesis
    proof (cases out)
      case (Some e)
      with sc c1 Suc show ?thesis
        by (intro exI [of _ 0] exI [of _ "[(GetDocs Destination (materialized_fquery None flt), out)]"])
           (auto simp: yielded_def readMaterializedPages_Suc [OF v])
    next
      case None
      with sc c1 Suc pull re show ?thesis
        by (intro exI [of _ "Suc k"] exI [of _ "[(GetDocs Destination (materialized_fquery None flt), out)]"])
           (auto simp: yielded_def readMaterializedPages_Suc [OF v])
    qed
  qed
qed

lemma readMaterializedPages_shape:
  "\<exists>m tr. yielded (readMaterializedPages n flt w) =
             map entry_out (take m (readable_entries flt (destination w))) \<and>
          calls (snd (readMaterializedPages n flt w)) = calls w @ tr \<and> length tr \<le> 2 \<and>
          (\<forall>x \<in> set tr. \<exists>lc out. x = (GetDocs Destination (materialized_fquery lc flt), out))"
proof (cases "valid_filter flt")
  case True
  then show ?thesis by (rule readMaterializedPages_shape_valid)
next
  case False
  have "readMaterializedPages n flt w = (([], Suspended readMaterializedPages_init), w) \<or>
        readMaterializedPages n flt w = (([], Failed InvalidArgument), w)"
    using readMaterializedPages_invalid [OF False, of _ w]
    by (cases n) (simp_all add: readMaterializedPages_def)
  then have "yielded (readMaterializedPages n flt w) =
               map entry_out (take 0 (readable_entries flt (destination w)))"
    and "calls (snd (readMaterializedPages n flt w)) = calls w @ []"
    by (auto simp: yielded_def)
  then show ?thesis by (intro exI [of _ 0] exI [of _ "[]"]) simp
qed

lemma set_readable_entries:
  "set (readable_entries flt dest) =
     {e \<in> set dest. pg_cursor (e_fields e) \<noteq> None \<and> filter_holds flt e}"
  by (auto simp: readable_entries_def set_matching_entries)

lemma filter_holds_Some:
  "filter_holds (Some flt) e \<Longrightarrow> (key, v) \<in> set flt \<Longrightarrow>
     \<exists>md. pg_metadata (e_fields e) = Some md \<and> map_of md key = Some v"
  by (auto simp: filter_holds_def list_all_iff split: option.splits)

section \<open>Traversals of the destination\<close>




text \<open>
  C6. With a metadata filter, every query of \<open>readMaterializedPages\<close> carries one
  equality constraint on \<open>metadata.key\<close> per filter pair, and every item yielded is the
  data and metadata of a stored entry whose metadata maps each filter key to the filter's
  value. With two entries whose metadata have \<open>id\<close> equal to \<open>a\<close> and \<open>b\<close>, the filter
  \<open>{id: a}\<close> yields the first entry only.
\<close>

theorem readMaterializedPages_metadata_filter:
  "(\<forall>y \<in> set (yielded (readMaterializedPages n (Some flt) w)).
      \<exists>e \<in> set (destination w). y = entry_out e \<and>
        (\<forall>(key, v) \<in> set flt. \<exists>md. pg_metadata (e_fields e) = Some md \<and> map_of md key = Some v)) \<and>
   (\<forall>x \<in> set (new_calls w (snd (readMaterializedPages n (Some flt) w))).
      \<exists>q out. x = (GetDocs Destination q, out) \<and>
        q_filters q = map (\<lambda>(key, v). (''metadata.'' @ key, v)) flt) \<and>
   (faults w = [] \<and>
    destination w =
      [\<lparr>e_id = i1, e_fields = \<lparr>pg_cursor = Some c1, pg_data = d1, pg_metadata = Some md1\<rparr>\<rparr>,
       \<lparr>e_id = i2, e_fields = \<lparr>pg_cursor = Some c2, pg_data = d2, pg_metadata = Some md2\<rparr>\<rparr>] \<and>
    map_of md1 ''id'' = Some (VStr ''a'') \<and> map_of md2 ''id'' = Some (VStr ''b'') \<longrightarrow>
      yielded (readMaterializedPages (Suc (Suc m)) (Some [(''id'', VStr ''a'')]) w) = [(d1, Some md1)] \<and>
      ended (readMaterializedPages (Suc (Suc m)) (Some [(''id'', VStr ''a'')]) w) = Completed)"
proof -
  from readMaterializedPages_shape [of n "Some flt" w] obtain k tr where
    y: "yielded (readMaterializedPages n (Some flt) w) =
          map entry_out (take k (readable_entries (Some flt) (destination w)))"
    and tr: "calls (snd (readMaterializedPages n (Some flt) w)) = calls w @ tr"
      "\<forall>x \<in> set tr. \<exists>lc out. x = (GetDocs Destination (materialized_fquery lc (Some flt)), out)"
    by blast
  have p1: "\<exists>e \<in> set (destination w). y = entry_out e \<and>
        (\<forall>(key, v) \<in> set flt. \<exists>md. pg_metadata (e_fields e) = Some md \<and> map_of md key = Some v)"
    if "y \<in> set (yielded (readMaterializedPages n (Some flt) w))" for y
  proof -
    from that y obtain e where e: "e \<in> set (readable_entries (Some flt) (destination w))" "y = entry_out e"
      by (auto dest: in_set_takeD)
    then have "e \<in> set (destination w)" "filter_holds (Some flt) e"
      by (simp_all add: set_readable_entries)
    with e(2) show ?thesis by (auto dest: filter_holds_Some)
  qed
  have p2: "\<forall>x \<in> set (new_calls w (snd (readMaterializedPages n (Some flt) w))).
      \<exists>q out. x = (GetDocs Destination q, out) \<and>
        q_filters q = map (\<lambda>(key, v). (''metadata.'' @ key, v)) flt"
  proof
    fix x
    assume "x \<in> set (new_calls w (snd (readMaterializedPages n (Some flt) w)))"
    then have "x \<in> set tr" by (simp add: new_calls_def tr(1))
    with tr(2) obtain lc out where "x = (GetDocs Destination (materialized_fquery lc (Some flt)), out)"
      by blast
    moreover have "q_filters (materialized_fquery lc (Some flt)) = map (\<lambda>(key, v). (''metadata.'' @ key, v)) flt"
      by (simp add: materialized_fquery_def)
    ultimately show "\<exists>q out. x = (GetDocs Destination q, out) \<and>
        q_filters q = map (\<lambda>(key, v). (''metadata.'' @ key, v)) flt"
      by blast
  qed
  have p3: "yielded (readMaterializedPages (Suc (Suc m)) (Some [(''id'', VStr ''a'')]) w) = [(d1, Some md1)] \<and>
      ended (readMaterializedPages (Suc (Suc m)) (Some [(''id'', VStr ''a'')]) w) = Completed"
    if f: "faults w = []"
      and d: "destination w =
      [\<lparr>e_id = i1, e_fields = \<lparr>pg_cursor = Some c1, pg_data = d1, pg_metadata = Some md1\<rparr>\<rparr>,
       \<lparr>e_id = i2, e_fields = \<lparr>pg_cursor = Some c2, pg_data = d2, pg_metadata = Some md2\<rparr>\<rparr>]"
      and m1: "map_of md1 ''id'' = Some (VStr ''a'')" and m2: "map_of md2 ''id'' = Some (VStr ''b'')"
  proof -
    have r: "readable_entries (Some [(''id'', VStr ''a'')]) (destination w) =
               [\<lparr>e_id = i1, e_fields = \<lparr>pg_cursor = Some c1, pg_data = d1, pg_metadata = Some md1\<rparr>\<rparr>]"
      by (simp add: readable_entries_def matching_entries_def filter_holds_def d m1 m2 sort_by_def)
    have "length (readable_entries (Some [(''id'', VStr ''a'')]) (destination w)) < Suc (Suc m)"
      by (simp add: r)
    moreover have "valid_filter (Some [(''id'', VStr ''a'')])"
      by code_simp
    ultimately show ?thesis
      using f readMaterializedPages_all [OF refl]
      by (simp add: r store_call_def yielded_def ended_def entry_out_def)
  qed
  from p1 p2 p3 show ?thesis by blast
qed

theorem readMaterializedPages_metadata_filter_witness:
  "faults materialized_world = [] \<and>
   destination materialized_world =
      [\<lparr>e_id = ''k2'', e_fields = \<lparr>pg_cursor = Some ''d7'', pg_data = [[(''title'', VStr ''first'')]],
                                   pg_metadata = Some [(''id'', VStr ''a''), (''pageNumber'', VNum 1)]\<rparr>\<rparr>,
       \<lparr>e_id = ''k1'', e_fields = \<lparr>pg_cursor = Some ''d4'', pg_data = [[(''title'', VStr ''second'')]],
                                   pg_metadata = Some [(''id'', VStr ''b''), (''pageNumber'', VNum 1)]\<rparr>\<rparr>] \<and>
   map_of [(''id'', VStr ''a''), (''pageNumber'', VNum 1)] ''id'' = Some (VStr ''a'') \<and>
   map_of [(''id'', VStr ''b''), (''pageNumber'', VNum 1)] ''id'' = Some (VStr ''b'') \<and>
   yielded (readMaterializedPages (Suc (Suc 0)) (Some [(''id'', VStr ''a'')]) materialized_world) =
     [([[(''title'', VStr ''first'')]], Some [(''id'', VStr ''a''), (''pageNumber'', VNum 1)])] \<and>
   ended (readMaterializedPages (Suc (Suc 0)) (Some [(''id'', VStr ''a'')]) materialized_world) = Completed \<and>
   (\<exists>e \<in> set (destination materialized_world).
      ([[(''title'', VStr ''first'')]], Some [(''id'', VStr ''a''), (''pageNumber'', VNum 1)]) = entry_out e \<and>
      (\<exists>md. pg_metadata (e_fields e) = Some md \<and> map_of md ''id'' = Some (VStr ''a'')))"
proof -
  have f: "faults materialized_world = []"
    by (simp add: materialized_world_def example_world_def)
  have d: "destination materialized_world =
      [\<lparr>e_id = ''k2'', e_fields = \<lparr>pg_cursor = Some ''d7'', pg_data = [[(''title'', VStr ''first'')]],
                                   pg_metadata = Some [(''id'', VStr ''a''), (''pageNumber'', VNum 1)]\<rparr>\<rparr>,
       \<lparr>e_id = ''k1'', e_fields = \<lparr>pg_cursor = Some ''d4'', pg_data = [[(''title'', VStr ''second'')]],
                                   pg_metadata = Some [(''id'', VStr ''b''), (''pageNumber'', VNum 1)]\<rparr>\<rparr>]"
    by (simp add: materialized_world_def two_entries_def)
  have m: "map_of [(''id'', VStr ''a''), (''pageNumber'', VNum 1)] ''id'' = Some (VStr ''a'')"
      "map_of [(''id'', VStr ''b''), (''pageNumber'', VNum 1)] ''id'' = Some (VStr ''b'')"
    by simp_all
  note inst = readMaterializedPages_metadata_filter
    [of "Suc (Suc 0)" "[(''id'', VStr ''a'')]" materialized_world
        "''k2''" "''d7''" "[[(''title'', VStr ''first'')]]" "[(''id'', VStr ''a''), (''pageNumber'', VNum 1)]"
        "''k1''" "''d4''" "[[(''title'', VStr ''second'')]]" "[(''id'', VStr ''b''), (''pageNumber'', VNum 1)]" 0]
  from inst f d m have y:
    "yielded (readMaterializedPages (Suc (Suc 0)) (Some [(''id'', VStr ''a'')]) materialized_world) =
       [([[(''title'', VStr ''first'')]], Some [(''id'', VStr ''a''), (''pageNumber'', VNum 1)])]"
    and e: "ended (readMaterializedPages (Suc (Suc 0)) (Some [(''id'', VStr ''a'')]) materialized_world) = Completed"
    by blast+
  from inst have "\<forall>y \<in> set (yielded (readMaterializedPages (Suc (Suc 0)) (Some [(''id'', VStr ''a'')]) materialized_world)).
      \<exists>e \<in> set (destination materialized_world). y = entry_out e \<and>
        (\<forall>(key, v) \<in> set [(''id'', VStr ''a'')]. \<exists>md. pg_metadata (e_fields e) = Some md \<and> map_of md key = Some v)"
    by blast
  then have "\<exists>e \<in> set (destination materialized_world).
      ([[(''title'', VStr ''first'')]], Some [(''id'', VStr ''a''), (''pageNumber'', VNum 1)]) = entry_out e \<and>
      (\<exists>md. pg_metadata (e_fields e) = Some md \<and> map_of md ''id'' = Some (VStr ''a''))"
    unfolding y by simp
  with f d m y e show ?thesis by blast
qed

section \<open>Runs of \<open>readPages\<close>\<close>

lemma run_query_empty_collection: "run_query fld q [] = []"
  by (simp add: run_query_def ordered_matches_def sort_by_def split: option.splits)

lemma readable_entries_empty: "readable_entries flt [] = []"
  by (simp add: readable_entries_def matching_entries_def sort_by_def)

lemma readPages_pull_nonempty:
  "readPages_pull n qp b md st w = ((pages, s), w') \<Longrightarrow> p \<in> set pages \<Longrightarrow> pg_data p \<noteq> []"
proof (induction n arbitrary: st w pages s w')
  case 0
  then show ?case by simp
next
  case (Suc n)
  obtain g w1 where nx: "readPages_next qp b md st w = (g, w1)" by (cases "readPages_next qp b md st w")
  show ?case
  proof (cases g)
    case (Yielded p0 st')
    obtain ps s2 w2 where rest: "readPages_pull n qp b md st' w1 = ((ps, s2), w2)"
      by (metis prod.exhaust)
    with Suc.prems(1) nx Yielded have pages: "pages = p0 # ps" by simp
    from readPages_next_Yielded [OF nx [unfolded Yielded]]
    have "pg_data p0 \<noteq> []" by (auto simp: make_page_def)
    with Suc.IH [OF rest] Suc.prems(2) pages show ?thesis by auto
  next
    case Finished
    with Suc.prems nx show ?thesis by simp
  next
    case (Threw e)
    with Suc.prems nx show ?thesis by simp
  qed
qed

section \<open>An empty source\<close>

text \<open>
  C7. \<open>readPages\<close> never yields a page whose data is empty. When the first query
  returns no document and the store does not fail, \<open>readPages\<close> ends at once with no
  page after that one query, \<open>materializePaginationResults\<close> returns without a single
  write, and \<open>readMaterializedPages\<close> on the still empty destination yields nothing:
  it ends normally, or with the rejection of its query when a filter key is not a
  field path.
\<close>

theorem empty_source_yields_nothing:
  "(\<forall>p \<in> set (yielded (readPages n queryParams batchSize md w)). pg_data p \<noteq> []) \<and>
   (readPages_query queryParams batchSize None = Inr q \<and>
    run_query document_field q (source w) = [] \<and> faults w = [] \<longrightarrow>
      readPages (Suc m) queryParams batchSize md w =
        (([], Completed), w\<lparr>calls := calls w @ [(GetDocs Source q, None)]\<rparr>) \<and>
      materializePaginationResults queryParams batchSize md w =
        Some (Inr (), w\<lparr>calls := calls w @ [(GetDocs Source q, None)]\<rparr>) \<and>
      (destination w = [] \<longrightarrow>
         yielded (readMaterializedPages (Suc m) flt (w\<lparr>calls := calls w @ [(GetDocs Source q, None)]\<rparr>)) = [] \<and>
         ended (readMaterializedPages (Suc m) flt (w\<lparr>calls := calls w @ [(GetDocs Source q, None)]\<rparr>)) =
           (if valid_filter flt then Completed else Failed InvalidArgument)))"
proof -
  have p1: "\<forall>p \<in> set (yielded (readPages n queryParams batchSize md w)). pg_data p \<noteq> []"
  proof
    fix p
    assume p: "p \<in> set (yielded (readPages n queryParams batchSize md w))"
    obtain pages s w' where run: "readPages_pull n queryParams batchSize md readPages_init w = ((pages, s), w')"
      by (metis prod.exhaust)
    with p have "p \<in> set pages" by (simp add: yielded_def readPages_def)
    from readPages_pull_nonempty [OF run this] show "pg_data p \<noteq> []" .
  qed
  define w1 where "w1 = w\<lparr>calls := calls w @ [(GetDocs Source q, None)]\<rparr>"
  have p2: "readPages (Suc m) queryParams batchSize md w = (([], Completed), w1) \<and>
      materializePaginationResults queryParams batchSize md w = Some (Inr (), w1) \<and>
      (destination w = [] \<longrightarrow>
         yielded (readMaterializedPages (Suc m) flt w1) = [] \<and>
         ended (readMaterializedPages (Suc m) flt w1) =
           (if valid_filter flt then Completed else Failed InvalidArgument))"
    if q: "readPages_query queryParams batchSize None = Inr q"
      and e: "run_query document_field q (source w) = []" and f: "faults w = []"
  proof -
    have nx: "readPages_next queryParams batchSize md readPages_init w = (Finished, w1)"
      by (simp add: readPages_next_eq readPages_init_def q e f store_call_def w1_def)
    have a: "readPages (Suc m) queryParams batchSize md w = (([], Completed), w1)"
      by (simp add: readPages_def nx)
    have b: "materializePaginationResults queryParams batchSize md w = Some (Inr (), w1)"
      unfolding materializePaginationResults_def
      by (subst materialize_loop.simps) (simp add: nx)
    have c: "yielded (readMaterializedPages (Suc m) flt w1) = [] \<and>
         ended (readMaterializedPages (Suc m) flt w1) =
           (if valid_filter flt then Completed else Failed InvalidArgument)" if "destination w = []"
    proof (cases "valid_filter flt")
      case True
      have "readable_entries flt (destination w1) = []"
        using that by (simp add: w1_def readable_entries_empty)
      moreover have "faults w1 = []" using f by (simp add: w1_def)
      ultimately show ?thesis
        using True by (simp add: readMaterializedPages_Suc [OF True] store_call_def yielded_def ended_def)
    next
      case False
      then show ?thesis
        by (simp add: readMaterializedPages_invalid yielded_def ended_def)
    qed
    from a b c show ?thesis by blast
  qed
  from p1 p2 show ?thesis unfolding w1_def by blast
qed

theorem empty_source_yields_nothing_witness:
  "readPages_query no_match_params 10 None = Inr no_match_query \<and>
   run_query document_field no_match_query (source (example_world two_documents [])) = [] \<and>
   faults (example_world two_documents []) = [] \<and>
   destination (example_world two_documents []) = [] \<and>
   readPages (Suc 0) no_match_params 10 None (example_world two_documents []) =
     (([], Completed),
      (example_world two_documents [])
         \<lparr>calls := calls (example_world two_documents []) @ [(GetDocs Source no_match_query, None)]\<rparr>) \<and>
   materializePaginationResults no_match_params 10 None (example_world two_documents []) =
     Some (Inr (),
      (example_world two_documents [])
         \<lparr>calls := calls (example_world two_documents []) @ [(GetDocs Source no_match_query, None)]\<rparr>) \<and>
   yielded (readMaterializedPages (Suc 0) None
      ((example_world two_documents [])
         \<lparr>calls := calls (example_world two_documents []) @ [(GetDocs Source no_match_query, None)]\<rparr>)) = []"
proof -
  have q: "readPages_query no_match_params 10 None = Inr no_match_query"
    by code_simp
  have e: "run_query document_field no_match_query (source (example_world two_documents [])) = []"
    by code_simp
  have f: "faults (example_world two_documents []) = []"
    and d: "destination (example_world two_documents []) = []"
    by (simp_all add: example_world_def)
  from q e f d
    empty_source_yields_nothing [of 0 no_match_params 10 None "example_world two_documents []" no_match_query 0 None]
  show ?thesis by blast
qed

section \<open>Iterations of the materializer\<close>




lemma materialize_loop_steps:
  "materialize_loop qp b md st w = Some res \<Longrightarrow>
     \<exists>n. materialize_steps n qp b md st w = (Some (fst res), snd res)"
proof (induction qp b md st w res rule: materialize_loop.raw_induct [rotated 1, consumes 1])
  case (1 loop qp b md st w res)
  obtain g w1 where nx: "readPages_next qp b md st w = (g, w1)"
    by (cases "readPages_next qp b md st w")
  show ?case
  proof (cases g)
    case (Threw e)
    with 1(2) nx have "materialize_steps (Suc 0) qp b md st w = (Some (fst res), snd res)" by auto
    then show ?thesis by blast
  next
    case Finished
    with 1(2) nx have "materialize_steps (Suc 0) qp b md st w = (Some (fst res), snd res)" by auto
    then show ?thesis by blast
  next
    case (Yielded p st')
    obtain r2 w2 where sv: "savePageToCollection (pg_data p) (pg_cursor p) (pg_metadata p) w1 = (r2, w2)"
      by (metis prod.exhaust)
    show ?thesis
    proof (cases r2)
      case (Inl e)
      with 1(2) nx Yielded sv have "materialize_steps (Suc 0) qp b md st w = (Some (fst res), snd res)"
        by auto
      then show ?thesis by blast
    next
      case (Inr u)
      with 1(2) nx Yielded sv have "loop qp b md st' w2 = Some res" by simp
      from 1(1) [OF this] obtain n where "materialize_steps n qp b md st' w2 = (Some (fst res), snd res)"
        by blast
      with nx Yielded sv Inr have "materialize_steps (Suc n) qp b md st w = (Some (fst res), snd res)"
        by simp
      then show ?thesis by blast
    qed
  qed
qed

section \<open>The materializer\<close>



section \<open>Queries ordered by document id\<close>

lemma batches_Nil [simp]: "batches b [] = []"
  by (simp add: batches.simps)

lemma batches_step: "0 < b \<Longrightarrow> xs \<noteq> [] \<Longrightarrow> batches b xs = take b xs # batches b (drop b xs)"
  by (subst batches.simps) simp



lemma ceil_div_step:
  fixes n b :: nat
  assumes "0 < b" "0 < n"
  shows "(n + b - 1) div b = Suc ((n - b + b - 1) div b)"
proof -
  have "n + b - 1 = (n - 1) + b" using assms by arith
  then have "(n + b - 1) div b = ((n - 1) + b) div b" by (rule arg_cong)
  also have "\<dots> = (n - 1) div b + 1" by (rule div_add_self2) (use assms in simp)
  also have "\<dots> = Suc ((n - 1) div b)" by (rule Suc_eq_plus1 [symmetric])
  also have "(n - 1) div b = (n - b + b - 1) div b"
  proof (cases "b \<le> n")
    case True
    then have "n - b + b - 1 = n - 1" by arith
    then show ?thesis by (rule arg_cong [symmetric])
  next
    case False
    then have "n - b + b - 1 = b - 1" by arith
    moreover have "(b - 1) div b = 0" using assms by simp
    moreover have "(n - 1) div b = 0" using False assms by simp
    ultimately show ?thesis by simp
  qed
  finally show ?thesis .
qed

lemma length_batches: "0 < b \<Longrightarrow> length (batches b xs) = (length xs + b - 1) div b"
proof (induction b xs rule: batches.induct)
  case (1 b xs)
  show ?case
  proof (cases "xs = []")
    case True
    with "1.prems" show ?thesis by simp
  next
    case False
    with 1 have "length (batches b xs) = Suc ((length xs - b + b - 1) div b)"
      by (simp add: batches_step)
    also have "\<dots> = (length xs + b - 1) div b"
      using ceil_div_step [of b "length xs"] False "1.prems" by simp
    finally show ?thesis .
  qed
qed

subsection \<open>The batch of one iteration\<close>













subsection \<open>Traversals\<close>

lemma savePage_accepted:
  assumes "accepts_next_call w"
  shows "savePageToCollection dat cur (Some m) w =
           (Inr (),
            w\<lparr>faults := tl (faults w),
              calls := calls w @ [(AddDoc \<lparr>pg_cursor = cur, pg_data = dat, pg_metadata = Some m\<rparr>, None)],
              destination := destination w @
                [\<lparr>e_id = autoId w (length (destination w)),
                  e_fields = \<lparr>pg_cursor = cur, pg_data = dat, pg_metadata = Some m\<rparr>\<rparr>]\<rparr>)"
  using assms
  by (auto simp: savePageToCollection_def addDoc_def store_call_def accepts_next_call_def
           split: list.splits)



lemma accepts_no_faults: "faults w = [] \<Longrightarrow> accepts_next_call w"
  by (simp add: accepts_next_call_def)


subsection \<open>Cursors of successive pages\<close>











lemma cursor_before_some: "cursor_before p p' \<Longrightarrow> pg_cursor p \<noteq> None \<and> pg_cursor p' \<noteq> None"
  by (auto simp: cursor_before_def split: option.splits)






section \<open>Reading, materializing and reading back\<close>




section \<open>Order of the cursors\<close>




section \<open>Twenty-five records in batches of ten\<close>




section \<open>Batches of a query ordered by a field\<close>

lemma newest_ten:
  "run_query document_field
     \<lparr>q_filters = [], q_orderBy = [(''timestamp'', Desc)], q_limit = Some 10, q_startAfter = None\<rparr>
     twenty_five_documents = rev (drop 15 twenty_five_documents)"
  "run_query document_field
     \<lparr>q_filters = [], q_orderBy = [(''timestamp'', Desc)], q_limit = Some 10,
      q_startAfter = Some (VStr ''d15'')\<rparr>
     twenty_five_documents = rev (drop 15 twenty_five_documents)"
  "rev (drop 15 twenty_five_documents) \<noteq> []"
  "doc_id (last (rev (drop 15 twenty_five_documents))) = ''d15''"
  by code_simp+

lemma valid_timestamp_path: "valid_field_path ''timestamp''"
  by code_simp

lemma newest_ten_again:
  assumes "source w = twenty_five_documents" and "faults w = []"
    and "lastCursor st = None \<or> (\<exists>d. lastCursor st = Some d \<and> doc_id d = ''d15'')"
  shows "\<exists>p st' w'. readPages_next by_timestamp_desc 10 md st w = (Yielded p st', w') \<and>
           source w' = twenty_five_documents \<and> faults w' = [] \<and>
           (\<exists>d. lastCursor st' = Some d \<and> doc_id d = ''d15'')"
proof -
  from assms(3) obtain q where
    q: "readPages_query by_timestamp_desc 10 (lastCursor st) = Inr q"
      "run_query document_field q twenty_five_documents = rev (drop 15 twenty_five_documents)"
    by (auto simp: readPages_query_def by_timestamp_desc_def collection_query_def newest_ten
          valid_timestamp_path)
  show ?thesis
    using q assms(1,2) newest_ten(3,4)
    by (simp add: readPages_next_eq store_call_def Let_def)
qed

lemma descending_timestamp_steps:
  "source w = twenty_five_documents \<Longrightarrow> faults w = [] \<Longrightarrow>
   lastCursor st = None \<or> (\<exists>d. lastCursor st = Some d \<and> doc_id d = ''d15'') \<Longrightarrow>
   fst (materialize_steps n by_timestamp_desc 10 md st w) = None"
proof (induction n arbitrary: st w)
  case 0
  show ?case by simp
next
  case (Suc n)
  from newest_ten_again [OF Suc.prems, of md] obtain p st' w' where
    nx: "readPages_next by_timestamp_desc 10 md st w = (Yielded p st', w')"
      and inv: "source w' = twenty_five_documents" "faults w' = []"
        "\<exists>d. lastCursor st' = Some d \<and> doc_id d = ''d15''"
    by blast
  have "accepts_next_call w'" using inv(2) by (rule accepts_no_faults)
  note sv = savePage_accepted [OF this, of "pg_data p" "pg_cursor p" "pageMetadata md (pageNumber st)",
      folded readPages_next_metadata [OF nx]]
  let ?w2 = "w'\<lparr>faults := tl (faults w'),
               calls := calls w' @ [(AddDoc \<lparr>pg_cursor = pg_cursor p, pg_data = pg_data p, pg_metadata = pg_metadata p\<rparr>, None)],
               destination := destination w' @
                 [\<lparr>e_id = autoId w' (length (destination w')),
                   e_fields = \<lparr>pg_cursor = pg_cursor p, pg_data = pg_data p, pg_metadata = pg_metadata p\<rparr>\<rparr>]\<rparr>"
  have "source ?w2 = twenty_five_documents" "faults ?w2 = []" using inv by simp_all
  from Suc.IH [OF this, of st'] inv(3)
  have "fst (materialize_steps n by_timestamp_desc 10 md st' ?w2) = None" by blast
  with nx sv show ?case by simp
qed

lemma descending_timestamp_never_ends:
  "materializePaginationResults by_timestamp_desc 10 md (example_world twenty_five_documents []) = None"
proof (rule ccontr)
  assume "materializePaginationResults by_timestamp_desc 10 md (example_world twenty_five_documents []) \<noteq> None"
  then obtain res where
    "materialize_loop by_timestamp_desc 10 md readPages_init (example_world twenty_five_documents []) = Some res"
    by (auto simp: materializePaginationResults_def)
  from materialize_loop_steps [OF this] obtain n where
    "materialize_steps n by_timestamp_desc 10 md readPages_init (example_world twenty_five_documents []) =
       (Some (fst res), snd res)"
    by blast
  moreover have "fst (materialize_steps n by_timestamp_desc 10 md readPages_init
                        (example_world twenty_five_documents [])) = None"
    by (rule descending_timestamp_steps) (simp_all add: example_world_def readPages_init_def)
  ultimately show False by simp
qed

text \<open>
  C3. \<open>readPages\<close> continues a query with \<open>startAfter(lastCursor.id)\<close>: the id of the last
  document, as a bound on the first field the query orders by. Ordered by another field,
  the pages are not the batches of the result. Two documents ordered by \<open>rank\<close>, batch
  size 1: the traversal ends after the first of two pages. A query with no \<open>orderBy\<close>:
  the second iteration is rejected. Ordered by descending timestamp: every request
  returns the first ten records again, and \<open>materializePaginationResults\<close> never returns.
\<close>

theorem readPages_continuation_by_document_id:
  "source_results by_field (source (example_world ranked_documents [])) = ranked_documents \<and>
   fst (readPages 5 by_field 1 None (example_world ranked_documents [])) =
     ([\<lparr>pg_cursor = Some ''z'', pg_data = [[(''rank'', VStr ''a'')]],
         pg_metadata = Some [(''pageNumber'', VNum 1)]\<rparr>], Completed) \<and>
   concat (map pg_data (yielded (readPages 5 by_field 1 None (example_world ranked_documents [])))) \<noteq>
     map doc_data (source_results by_field (source (example_world ranked_documents []))) \<and>
   fst (readPages 5 [] 1 None (example_world ranked_documents [])) =
     ([\<lparr>pg_cursor = Some ''y'', pg_data = [[(''rank'', VStr ''b'')]],
         pg_metadata = Some [(''pageNumber'', VNum 1)]\<rparr>], Failed InvalidArgument) \<and>
   map pg_cursor (yielded (readPages 5 by_timestamp_desc 10 None (example_world twenty_five_documents []))) =
     [Some ''d15'', Some ''d15'', Some ''d15'', Some ''d15'', Some ''d15''] \<and>
   materializePaginationResults by_timestamp_desc 10 None (example_world twenty_five_documents []) = None"
proof -
  note f = descending_timestamp_never_ends [of None]
  have a: "source_results by_field (source (example_world ranked_documents [])) = ranked_documents"
    by code_simp
  have b: "fst (readPages 5 by_field 1 None (example_world ranked_documents [])) =
     ([\<lparr>pg_cursor = Some ''z'', pg_data = [[(''rank'', VStr ''a'')]],
         pg_metadata = Some [(''pageNumber'', VNum 1)]\<rparr>], Completed)"
    by code_simp
  have c: "concat (map pg_data (yielded (readPages 5 by_field 1 None (example_world ranked_documents [])))) \<noteq>
     map doc_data (source_results by_field (source (example_world ranked_documents [])))"
    by code_simp
  have d: "fst (readPages 5 [] 1 None (example_world ranked_documents [])) =
     ([\<lparr>pg_cursor = Some ''y'', pg_data = [[(''rank'', VStr ''b'')]],
         pg_metadata = Some [(''pageNumber'', VNum 1)]\<rparr>], Failed InvalidArgument)"
    by code_simp
  have e: "map pg_cursor (yielded (readPages 5 by_timestamp_desc 10 None (example_world twenty_five_documents []))) =
     [Some ''d15'', Some ''d15'', Some ''d15'', Some ''d15'', Some ''d15'']"
    by code_simp
  from a b c d e f show ?thesis by blast
qed

end
